theory Spec2Isabelle
  imports Main
begin

section \<open>Exceptions\<close>

text \<open>
  The exception classes the library calls of \<open>QT.py\<close> raise. Every one of them derives
  from Python's \<open>Exception\<close>. A computation that may raise returns \<open>exn + 'a\<close>, with
  \<open>Inl\<close> for the raised exception.
\<close>

datatype exn =
    FileNotFoundError
  | NotADirectoryError
  | IsADirectoryError
  | PermissionError
  | UnidentifiedImageError
  | IndexError
  | ValueError
  | SSLError
  | SMTPConnectError
  | SMTPAuthenticationError
  | SMTPRecipientsRefused
  | SMTPResponseException

section \<open>The directory tree\<close>

text \<open>
  A path is the list of its components below the working directory; \<open>os.path.join\<close>
  of a directory and a name appends the name. A directory holds named entries, a regular
  file carries whether the image library can decode it.
\<close>

type_synonym path = "string list"

datatype node = File bool | Dir "(string \<times> node) list"

definition path_join :: "path \<Rightarrow> string \<Rightarrow> path" where
  "path_join d name = d @ [name]"

fun lookup :: "path \<Rightarrow> node \<Rightarrow> node option" where
  "lookup [] n = Some n"
| "lookup (c # cs) n =
     (case n of
        File _ \<Rightarrow> None
      | Dir entries \<Rightarrow> (case map_of entries c of None \<Rightarrow> None | Some m \<Rightarrow> lookup cs m))"

definition isfile :: "node \<Rightarrow> path \<Rightarrow> bool" where
  "isfile root p = (case lookup p root of Some (File _) \<Rightarrow> True | _ \<Rightarrow> False)"

definition listdir :: "node \<Rightarrow> path \<Rightarrow> exn + string list" where
  "listdir root p =
     (case lookup p root of
        None \<Rightarrow> Inl FileNotFoundError
      | Some (File _) \<Rightarrow> Inl NotADirectoryError
      | Some (Dir entries) \<Rightarrow> Inr (map fst entries))"

section \<open>Configuration constants\<close>

definition BASE_DIR :: path where
  "BASE_DIR = [''QT_assessment'']"

definition IMAGE_DIR :: path where
  "IMAGE_DIR = path_join BASE_DIR ''images''"

definition DEPTHPRO_DIR :: path where
  "DEPTHPRO_DIR = path_join BASE_DIR ''depthpro''"

definition ENDODAC_DIR :: path where
  "ENDODAC_DIR = path_join BASE_DIR ''endodac''"

definition DEPTH_CATEGORIES :: "string list" where
  "DEPTH_CATEGORIES = [''high'', ''mid'', ''low'']"

section \<open>collect_image_triplets\<close>

text \<open>An entry is the tuple \<open>(img_path, dp_path, ed_path, cat, f)\<close> of the source.\<close>

type_synonym triplet = "path \<times> path \<times> path \<times> string \<times> string"

text \<open>The inner loop \<open>for f in files_in_cat\<close>, appending to \<open>triplets\<close>.\<close>

fun scan_files :: "node \<Rightarrow> string \<Rightarrow> string list \<Rightarrow> triplet list \<Rightarrow> triplet list" where
  "scan_files root cat [] triplets = triplets"
| "scan_files root cat (f # rest) triplets =
     (let img_path = path_join (path_join IMAGE_DIR cat) f;
          dp_path = path_join (path_join DEPTHPRO_DIR cat) f;
          ed_path = path_join (path_join ENDODAC_DIR cat) f
      in scan_files root cat rest
           (if isfile root img_path \<and> isfile root dp_path \<and> isfile root ed_path
            then triplets @ [(img_path, dp_path, ed_path, cat, f)]
            else triplets))"

text \<open>The outer loop \<open>for cat in DEPTH_CATEGORIES\<close>; \<open>os.listdir\<close> may raise.\<close>

fun scan_categories :: "node \<Rightarrow> string list \<Rightarrow> triplet list \<Rightarrow> exn + triplet list" where
  "scan_categories root [] triplets = Inr triplets"
| "scan_categories root (cat # cats) triplets =
     (case listdir root (path_join IMAGE_DIR cat) of
        Inl e \<Rightarrow> Inl e
      | Inr files_in_cat \<Rightarrow> scan_categories root cats (scan_files root cat files_in_cat triplets))"

definition collect_image_triplets :: "node \<Rightarrow> exn + triplet list" where
  "collect_image_triplets root = scan_categories root DEPTH_CATEGORIES []"

text \<open>
  The entry the source builds for a category and a file name, and whether that name is a
  regular file under the category in all three trees.
\<close>

definition entry_of :: "string \<Rightarrow> string \<Rightarrow> triplet" where
  "entry_of cat f =
     (path_join (path_join IMAGE_DIR cat) f,
      path_join (path_join DEPTHPRO_DIR cat) f,
      path_join (path_join ENDODAC_DIR cat) f, cat, f)"

definition in_all_three :: "node \<Rightarrow> string \<Rightarrow> string \<Rightarrow> bool" where
  "in_all_three root cat f =
     (isfile root (path_join (path_join IMAGE_DIR cat) f) \<and>
      isfile root (path_join (path_join DEPTHPRO_DIR cat) f) \<and>
      isfile root (path_join (path_join ENDODAC_DIR cat) f))"

text \<open>
  \<open>os.listdir\<close> of the reference-image folder of a category succeeds; the layout the
  builder expects has such a folder for every category.
\<close>

definition listable :: "node \<Rightarrow> string \<Rightarrow> bool" where
  "listable root cat =
     (case listdir root (path_join IMAGE_DIR cat) of Inl _ \<Rightarrow> False | Inr _ \<Rightarrow> True)"

definition valid_layout :: "node \<Rightarrow> bool" where
  "valid_layout root = list_all (listable root) DEPTH_CATEGORIES"

section \<open>Library calls used by main\<close>

text \<open>
  \<open>random.shuffle\<close> of the standard library: for \<open>i\<close> from the last index down to 1 it
  draws \<open>j = randbelow(i + 1)\<close> and swaps \<open>x[i]\<close> with \<open>x[j]\<close>. The draws are an input;
  each is reduced below its bound, and a missing draw counts as 0.
\<close>

fun shuffle_from :: "nat \<Rightarrow> nat list \<Rightarrow> 'a list \<Rightarrow> 'a list" where
  "shuffle_from 0 draws x = x"
| "shuffle_from (Suc k) draws x =
     (let i = Suc k;
          j = (case draws of [] \<Rightarrow> 0 | d # _ \<Rightarrow> d mod (i + 1))
      in shuffle_from k (tl draws) (x[i := x ! j, j := x ! i]))"

definition shuffle :: "nat list \<Rightarrow> 'a list \<Rightarrow> 'a list" where
  "shuffle draws x = shuffle_from (length x - 1) draws x"

text \<open>Indexing a Python list with an integer: negative indices count from the end.\<close>

definition getitem :: "'a list \<Rightarrow> int \<Rightarrow> exn + 'a" where
  "getitem xs i =
     (if 0 \<le> i \<and> i < int (length xs) then Inr (xs ! nat i)
      else if i < 0 \<and> - int (length xs) \<le> i then Inr (xs ! nat (int (length xs) + i))
      else Inl IndexError)"

text \<open>\<open>Image.open\<close>: the opened image is represented by the path it was read from.\<close>

definition Image_open :: "node \<Rightarrow> path \<Rightarrow> exn + path" where
  "Image_open root p =
     (case lookup p root of
        None \<Rightarrow> Inl FileNotFoundError
      | Some (Dir _) \<Rightarrow> Inl IsADirectoryError
      | Some (File decodable) \<Rightarrow> (if decodable then Inr p else Inl UnidentifiedImageError))"

text \<open>
  \<open>st.radio\<close> returns the selected one of its options; the selection is an input of the
  run.
\<close>

datatype slot = SlotA | SlotB

definition radio_options :: "string list" where
  "radio_options = [''Option A'', ''Option B'']"

fun radio :: "slot \<Rightarrow> string" where
  "radio SlotA = radio_options ! 0"
| "radio SlotB = radio_options ! 1"

text \<open>
  \<open>pd.DataFrame(data, columns=...)\<close> on a list of rows, and \<open>to_excel(..., index=False)\<close>,
  which writes the header row followed by the data rows. A row whose width differs from
  the number of columns is rejected here with \<open>ValueError\<close>.
\<close>

record table =
  tbl_columns :: "string list"
  tbl_rows :: "string list list"

definition DataFrame :: "string list list \<Rightarrow> string list \<Rightarrow> exn + table" where
  "DataFrame data cols =
     (if list_all (\<lambda>r. length r = length cols) data
      then Inr \<lparr>tbl_columns = cols, tbl_rows = data\<rparr>
      else Inl ValueError)"

definition to_excel :: "exn option \<Rightarrow> table \<Rightarrow> exn + string list list" where
  "to_excel sink df =
     (case sink of Some e \<Rightarrow> Inl e | None \<Rightarrow> Inr (tbl_columns df # tbl_rows df))"

section \<open>send_results_email\<close>

text \<open>
  What the mail step meets outside the program: reading the file back, creating the TLS
  context, connecting, logging in, sending, and the \<open>QUIT\<close> on leaving the \<open>with\<close>
  block. Each either succeeds or raises.
\<close>

record transport =
  open_rb :: "string \<Rightarrow> exn option"
  create_default_context :: "exn option"
  SMTP_SSL :: "exn option"
  login :: "exn option"
  send_message :: "exn option"
  quit :: "exn option"

definition attempt :: "exn option \<Rightarrow> exn + unit" where
  "attempt outcome = (case outcome of Some e \<Rightarrow> Inl e | None \<Rightarrow> Inr ())"

text \<open>The body of the \<open>try\<close> block.\<close>

definition send_body :: "transport \<Rightarrow> string \<Rightarrow> exn + unit" where
  "send_body t excel_filename =
     (case attempt (open_rb t excel_filename) of Inl e \<Rightarrow> Inl e | Inr _ \<Rightarrow>
      (case attempt (create_default_context t) of Inl e \<Rightarrow> Inl e | Inr _ \<Rightarrow>
       (case attempt (SMTP_SSL t) of Inl e \<Rightarrow> Inl e | Inr _ \<Rightarrow>
        (case attempt (login t) of Inl e \<Rightarrow> Inl e | Inr _ \<Rightarrow>
         (case attempt (send_message t) of Inl e \<Rightarrow> Inl e | Inr _ \<Rightarrow>
          attempt (quit t))))))"

text \<open>\<open>try: ...; return True\<close> with \<open>except Exception: ...; return False\<close>.\<close>

definition send_results_email :: "transport \<Rightarrow> string \<Rightarrow> exn + bool" where
  "send_results_email t excel_filename =
     (case send_body t excel_filename of Inr _ \<Rightarrow> Inr True | Inl e \<Rightarrow> Inr False)"

definition all_steps_succeed :: "transport \<Rightarrow> string \<Rightarrow> bool" where
  "all_steps_succeed t excel_filename =
     (open_rb t excel_filename = None \<and> create_default_context t = None \<and>
      SMTP_SSL t = None \<and> login t = None \<and> send_message t = None \<and> quit t = None)"

section \<open>The session and one run of main\<close>

text \<open>
  \<open>st.session_state\<close> holds the three keys \<open>triplets_list\<close>, \<open>current_idx\<close> and
  \<open>responses\<close>, which the source sets together; \<open>None\<close> is the state in which
  \<open>"triplets_list" not in st.session_state\<close>. A response is the list
  \<open>[rater_name, filename, cat, chosen_model]\<close>.
\<close>

record session_state =
  triplets_list :: "triplet list"
  current_idx :: int
  responses :: "string list list"

text \<open>
  What one run of the script reads from outside: the widgets (text field, the two
  buttons, the radio selection), the directory tree, the random draws of the two
  shuffles, and the outcomes of writing the spreadsheet and of the mail step.
\<close>

record run_input =
  rater_name :: string
  finalize_clicked :: bool
  choice :: slot
  next_clicked :: bool
  disk :: node
  pool_draws :: "nat list"
  pos_draws :: "nat list"
  excel_sink :: "exn option"
  mail :: transport

text \<open>What a run shows in the three image places of a trial.\<close>

record display =
  original :: path
  optionA :: path
  optionB :: path

text \<open>
  How a run ends: at the name prompt (\<open>st.warning\<close>, \<open>st.stop\<close>); at the completion
  page, with the written sheet and the result of the mail step when the finalize button
  was clicked; after showing a trial, with the response it appended if any; or with an
  exception.
\<close>

datatype finalize = NotFinalized | Finalized "string list list" bool

datatype outcome =
    NameWarning
  | Completed finalize
  | Trial triplet display "string list option"
  | Raised exn

definition RESULTS_FILENAME :: string where
  "RESULTS_FILENAME = ''evaluation_results.xlsx''"

definition RESULT_COLUMNS :: "string list" where
  "RESULT_COLUMNS = [''rater_name'', ''filename'', ''category'', ''chosen_model'']"

text \<open>Step 2 of \<open>main\<close>: load or initialize the session state.\<close>

definition init_session :: "run_input \<Rightarrow> session_state option \<Rightarrow> exn + session_state" where
  "init_session inp ss =
     (case ss of
        Some s \<Rightarrow> Inr s
      | None \<Rightarrow>
          (case collect_image_triplets (disk inp) of
             Inl e \<Rightarrow> Inl e
           | Inr all_triplets \<Rightarrow>
               Inr \<lparr>triplets_list = shuffle (pool_draws inp) all_triplets,
                    current_idx = 0,
                    responses = []\<rparr>))"

text \<open>The branch taken once the end is reached, up to \<open>st.stop()\<close>.\<close>

definition completion_page :: "run_input \<Rightarrow> session_state \<Rightarrow> outcome" where
  "completion_page inp s =
     (if finalize_clicked inp then
        (case DataFrame (responses s) RESULT_COLUMNS of
           Inl e \<Rightarrow> Raised e
         | Inr df \<Rightarrow>
             (case to_excel (excel_sink inp) df of
                Inl e \<Rightarrow> Raised e
              | Inr sheet \<Rightarrow>
                  (case send_results_email (mail inp) RESULTS_FILENAME of
                     Inl e \<Rightarrow> Raised e
                   | Inr success \<Rightarrow> Completed (Finalized sheet success))))
      else Completed NotFinalized)"

text \<open>
  The slot assignment: \<open>pos_order\<close> is shuffled, and its first element decides which
  path and label go to A and which to B.
\<close>

definition assign_slots :: "nat list \<Rightarrow> path \<Rightarrow> path \<Rightarrow> path \<times> path \<times> string \<times> string" where
  "assign_slots draws dp_path ed_path =
     (let pos_order = shuffle draws [''A'', ''B'']
      in if pos_order ! 0 = ''A''
         then (dp_path, ed_path, ''DepthPro'', ''EndoDac'')
         else (ed_path, dp_path, ''EndoDac'', ''DepthPro''))"

text \<open>Steps 3 and 4 of \<open>main\<close>: display the current sample, and store the response on "Next".\<close>

definition trial_page :: "run_input \<Rightarrow> session_state \<Rightarrow> session_state option \<times> outcome" where
  "trial_page inp s =
     (case getitem (triplets_list s) (current_idx s) of
        Inl e \<Rightarrow> (Some s, Raised e)
      | Inr (img_path, dp_path, ed_path, cat, filename) \<Rightarrow>
          (case Image_open (disk inp) img_path of
             Inl e \<Rightarrow> (Some s, Raised e)
           | Inr img \<Rightarrow>
               (case assign_slots (pos_draws inp) dp_path ed_path of
                  (modelA_path, modelB_path, modelA_label, modelB_label) \<Rightarrow>
                    (case Image_open (disk inp) modelA_path of
                       Inl e \<Rightarrow> (Some s, Raised e)
                     | Inr imgA \<Rightarrow>
                         (case Image_open (disk inp) modelB_path of
                            Inl e \<Rightarrow> (Some s, Raised e)
                          | Inr imgB \<Rightarrow>
                              (let chosen = radio (choice inp);
                                   shown = \<lparr>original = img, optionA = imgA, optionB = imgB\<rparr>;
                                   item = (img_path, dp_path, ed_path, cat, filename)
                               in if next_clicked inp then
                                    (let chosen_model =
                                           (if chosen = ''Option A'' then modelA_label
                                            else modelB_label);
                                         r = [rater_name inp, filename, cat, chosen_model]
                                     in (Some (s\<lparr>responses := responses s @ [r],
                                                 current_idx := current_idx s + 1\<rparr>),
                                         Trial item shown (Some r)))
                                  else (Some s, Trial item shown None)))))))"

text \<open>
  One run of \<open>main\<close> from the top, on the session state left by the previous run. The
  rerun requested after a response is stored is the next run.
\<close>

definition main :: "run_input \<Rightarrow> session_state option \<Rightarrow> session_state option \<times> outcome" where
  "main inp ss =
     (if rater_name inp = [] then (ss, NameWarning)
      else
        (case init_session inp ss of
           Inl e \<Rightarrow> (ss, Raised e)
         | Inr s \<Rightarrow>
             if int (length (triplets_list s)) \<le> current_idx s
             then (Some s, completion_page inp s)
             else trial_page inp s))"

text \<open>A session: the runs of \<open>main\<close> on a sequence of inputs, each on the state left by the one before.\<close>

fun run_all :: "run_input list \<Rightarrow> session_state option \<Rightarrow> session_state option" where
  "run_all [] ss = ss"
| "run_all (inp # inps) ss = run_all inps (fst (main inp ss))"

text \<open>
  Cursor, Judgment Log and Trial Pool of a session state; before initialization there
  is no pool, and the cursor and the log are read as 0 and empty.
\<close>

definition cursor :: "session_state option \<Rightarrow> int" where
  "cursor ss = (case ss of None \<Rightarrow> 0 | Some s \<Rightarrow> current_idx s)"

definition judgment_log :: "session_state option \<Rightarrow> string list list" where
  "judgment_log ss = (case ss of None \<Rightarrow> [] | Some s \<Rightarrow> responses s)"

definition trial_pool :: "session_state option \<Rightarrow> triplet list" where
  "trial_pool ss = (case ss of None \<Rightarrow> [] | Some s \<Rightarrow> triplets_list s)"

definition session_inv :: "session_state option \<Rightarrow> bool" where
  "session_inv ss =
     (int (length (judgment_log ss)) = cursor ss \<and>
      0 \<le> cursor ss \<and> cursor ss \<le> int (length (trial_pool ss)))"

text \<open>The response a run appended, if it appended one.\<close>

fun recorded :: "outcome \<Rightarrow> string list option" where
  "recorded (Trial item shown r) = r"
| "recorded NameWarning = None"
| "recorded (Completed fin) = None"
| "recorded (Raised e) = None"

text \<open>The image a run showed in a slot.\<close>

fun shown_in :: "display \<Rightarrow> slot \<Rightarrow> path" where
  "shown_in d SlotA = optionA d"
| "shown_in d SlotB = optionB d"

section \<open>Concrete layouts and inputs\<close>

text \<open>
  The layout of the end-to-end scenario: category \<open>high\<close> holds \<open>a.png\<close> in all three
  trees and \<open>b.png\<close> in the first two only; \<open>mid\<close> and \<open>low\<close> are empty.
\<close>

definition png_dir :: "string list \<Rightarrow> node" where
  "png_dir names = Dir (map (\<lambda>name. (name, File True)) names)"

definition tree_of :: "string list \<Rightarrow> node" where
  "tree_of high = Dir [(''high'', png_dir high), (''mid'', png_dir []), (''low'', png_dir [])]"

definition scenario_root :: node where
  "scenario_root = Dir [(''QT_assessment'', Dir
     [(''images'', tree_of [''a.png'', ''b.png'']),
      (''depthpro'', tree_of [''a.png'', ''b.png'']),
      (''endodac'', tree_of [''a.png''])])]"

text \<open>Both files in all three trees.\<close>

definition two_item_root :: node where
  "two_item_root = Dir [(''QT_assessment'', Dir
     [(''images'', tree_of [''a.png'', ''b.png'']),
      (''depthpro'', tree_of [''a.png'', ''b.png'']),
      (''endodac'', tree_of [''a.png'', ''b.png''])])]"

text \<open>
  \<open>a.png\<close> under \<open>high\<close> in all three trees, but the reference-image tree has no \<open>low\<close>
  folder.
\<close>

definition no_low_root :: node where
  "no_low_root = Dir [(''QT_assessment'', Dir
     [(''images'', Dir [(''high'', png_dir [''a.png'']), (''mid'', png_dir [])]),
      (''depthpro'', tree_of [''a.png'']),
      (''endodac'', tree_of [''a.png''])])]"

text \<open>A mail step in which nothing fails, and one whose login is refused.\<close>

definition mail_ok :: transport where
  "mail_ok = \<lparr>open_rb = (\<lambda>name. None), create_default_context = None, SMTP_SSL = None,
              login = None, send_message = None, quit = None\<rparr>"

definition mail_refused :: transport where
  "mail_refused = mail_ok\<lparr>login := Some SMTPAuthenticationError\<rparr>"

text \<open>
  The rater \<open>alice\<close> on the scenario layout, with option A selected and "Next Image"
  clicked; the draw 1 leaves \<open>pos_order\<close> as it is.
\<close>

definition alice_input :: run_input where
  "alice_input = \<lparr>rater_name = ''alice'', finalize_clicked = False, choice = SlotA,
                  next_clicked = True, disk = scenario_root, pool_draws = [], pos_draws = [1],
                  excel_sink = None, mail = mail_ok\<rparr>"

definition alice_item :: triplet where
  "alice_item = entry_of ''high'' ''a.png''"

definition alice_response :: "string list" where
  "alice_response = [''alice'', ''a.png'', ''high'', ''DepthPro'']"

definition alice_shown :: display where
  "alice_shown = \<lparr>original = path_join (path_join IMAGE_DIR ''high'') ''a.png'',
                  optionA = path_join (path_join DEPTHPRO_DIR ''high'') ''a.png'',
                  optionB = path_join (path_join ENDODAC_DIR ''high'') ''a.png''\<rparr>"

text \<open>The session after \<open>alice\<close> has judged the only item: it is complete.\<close>

definition alice_done :: session_state where
  "alice_done = \<lparr>triplets_list = [alice_item], current_idx = 1, responses = [alice_response]\<rparr>"

text \<open>The same page with the two depth maps in the other order.\<close>

definition alice_swapped :: display where
  "alice_swapped = \<lparr>original = path_join (path_join IMAGE_DIR ''high'') ''a.png'',
                    optionA = path_join (path_join ENDODAC_DIR ''high'') ''a.png'',
                    optionB = path_join (path_join DEPTHPRO_DIR ''high'') ''a.png''\<rparr>"

text \<open>The session of \<open>alice\<close> before the first judgment, and a run that only looks.\<close>

definition alice_start :: session_state where
  "alice_start = \<lparr>triplets_list = [alice_item], current_idx = 0, responses = []\<rparr>"

definition alice_looks :: run_input where
  "alice_looks = alice_input\<lparr>next_clicked := False\<rparr>"

text \<open>
  The rater \<open>alice\<close> on the layout with two items: the pool is shuffled with no draw
  left, which swaps the two entries. She picks option A for the first item and option B
  for the second, and then clicks the finalize button.
\<close>

definition alice_two :: run_input where
  "alice_two = alice_input\<lparr>disk := two_item_root\<rparr>"

definition alice_two_B :: run_input where
  "alice_two_B = alice_two\<lparr>choice := SlotB\<rparr>"

definition alice_two_finalize :: run_input where
  "alice_two_finalize = alice_two\<lparr>finalize_clicked := True\<rparr>"

definition two_item_pool :: "triplet list" where
  "two_item_pool = [entry_of ''high'' ''b.png'', entry_of ''high'' ''a.png'']"


definition two_item_done :: session_state where
  "two_item_done = \<lparr>triplets_list = two_item_pool, current_idx = 2,
                     responses = [[''alice'', ''b.png'', ''high'', ''DepthPro''],
                                  [''alice'', ''a.png'', ''high'', ''EndoDac'']]\<rparr>"


text \<open>
  The click of \<open>alice\<close> on the one-item layout, in a run whose draw swaps \<open>pos_order\<close>,
  and the session it leaves.
\<close>

definition alice_click_swapped :: run_input where
  "alice_click_swapped = alice_input\<lparr>pos_draws := [0]\<rparr>"

definition alice_done_swapped :: session_state where
  "alice_done_swapped = \<lparr>triplets_list = [alice_item], current_idx = 1,
                          responses = [[''alice'', ''a.png'', ''high'', ''EndoDac'']]\<rparr>"

section \<open>Notions used in the statements\<close>




text \<open>The sheet a run wrote, header row included, if it wrote one.\<close>

fun written :: "outcome \<Rightarrow> string list list option" where
  "written (Completed (Finalized sheet success)) = Some sheet"
| "written (Completed NotFinalized) = None"
| "written NameWarning = None"
| "written (Trial item shown r) = None"
| "written (Raised e) = None"


text \<open>The data rows of the sheet a run wrote, if it wrote one.\<close>

fun exported_rows :: "outcome \<Rightarrow> string list list" where
  "exported_rows (Completed (Finalized sheet success)) = tl sheet"
| "exported_rows (Completed NotFinalized) = []"
| "exported_rows NameWarning = []"
| "exported_rows (Trial item shown r) = []"
| "exported_rows (Raised e) = []"

text \<open>A response has four cells, the last of them one of the two model names.\<close>

definition shaped :: "string list \<Rightarrow> bool" where
  "shaped r = (length r = 4 \<and> (r ! 3 = ''DepthPro'' \<or> r ! 3 = ''EndoDac''))"

section \<open>Properties of collect_image_triplets\<close>

lemma lookup_append:
  "lookup (p @ q) n = (case lookup p n of None \<Rightarrow> None | Some m \<Rightarrow> lookup q m)"
  by (induction p arbitrary: n) (auto split: node.splits option.splits)

lemma isfile_listed:
  assumes "listdir root d = Inr names" and "isfile root (path_join d f)"
  shows "f \<in> set names"
proof -
  from assms(1) obtain entries where d: "lookup d root = Some (Dir entries)" and n: "names = map fst entries"
    by (auto simp: listdir_def split: option.splits node.splits)
  from assms(2) d have "map_of entries f \<noteq> None"
    by (auto simp: isfile_def path_join_def lookup_append split: option.splits)
  then have "f \<in> fst ` set entries"
    by (simp add: map_of_eq_None_iff)
  with n show ?thesis by simp
qed

lemma set_scan_files:
  "set (scan_files root cat names acc) =
     set acc \<union> {entry_of cat f | f. f \<in> set names \<and> in_all_three root cat f}"
  by (induction names arbitrary: acc) (auto simp: Let_def entry_of_def in_all_three_def)

lemma set_scan_categories:
  "scan_categories root cats acc = Inr ts \<Longrightarrow>
   set ts = set acc \<union> {entry_of cat f | cat f. cat \<in> set cats \<and> in_all_three root cat f}"
proof (induction cats arbitrary: acc)
  case Nil
  then show ?case by auto
next
  case (Cons cat cats)
  from Cons.prems obtain names where l: "listdir root (path_join IMAGE_DIR cat) = Inr names"
    and r: "scan_categories root cats (scan_files root cat names acc) = Inr ts"
    by (auto split: sum.splits)
  have listed: "in_all_three root cat f \<Longrightarrow> f \<in> set names" for f
    using isfile_listed [OF l] by (simp add: in_all_three_def)
  from Cons.IH [OF r] show ?case
    by (auto simp: set_scan_files dest: listed)
qed

lemma scan_categories_total:
  "list_all (listable root) cats \<Longrightarrow> \<exists>ts. scan_categories root cats acc = Inr ts"
  by (induction cats arbitrary: acc) (auto simp: listable_def split: sum.splits)

lemma scan_categories_raises:
  "\<not> list_all (listable root) cats \<Longrightarrow> \<exists>e. scan_categories root cats acc = Inl e"
  by (induction cats arbitrary: acc) (auto simp: listable_def split: sum.splits)

text \<open>
  Claim C2, as amended. On every directory tree in which the reference-image folder of
  each of the three categories can be listed, \<open>collect_image_triplets\<close> returns without
  an error, and the entries it returns are exactly those of the pairs (category, file
  name) that are a regular file in all three trees: a name present in only one or two of
  the trees is left out without an error, and every returned entry refers to three
  existing regular files.
\<close>

theorem collect_image_triplets_exact:
  assumes "valid_layout root"
  shows "\<exists>ts. collect_image_triplets root = Inr ts \<and>
           set ts = {entry_of cat f | cat f. cat \<in> set DEPTH_CATEGORIES \<and> in_all_three root cat f} \<and>
           list_all (\<lambda>(img_path, dp_path, ed_path, cat, f).
              isfile root img_path \<and> isfile root dp_path \<and> isfile root ed_path) ts"
proof -
  from assms obtain ts where ts: "collect_image_triplets root = Inr ts"
    unfolding collect_image_triplets_def valid_layout_def
    using scan_categories_total by blast
  then have s: "set ts = {entry_of cat f | cat f. cat \<in> set DEPTH_CATEGORIES \<and> in_all_three root cat f}"
    unfolding collect_image_triplets_def using set_scan_categories by fastforce
  then have "list_all (\<lambda>(img_path, dp_path, ed_path, cat, f).
              isfile root img_path \<and> isfile root dp_path \<and> isfile root ed_path) ts"
    by (auto simp: list_all_iff entry_of_def in_all_three_def)
  with ts s show ?thesis by blast
qed

theorem collect_image_triplets_exact_witness:
  "valid_layout scenario_root \<and>
   collect_image_triplets scenario_root = Inr [entry_of ''high'' ''a.png''] \<and>
   (\<exists>ts. collect_image_triplets scenario_root = Inr ts \<and>
      set ts = {entry_of cat f | cat f.
                  cat \<in> set DEPTH_CATEGORIES \<and> in_all_three scenario_root cat f} \<and>
      list_all (\<lambda>(img_path, dp_path, ed_path, cat, f).
         isfile scenario_root img_path \<and> isfile scenario_root dp_path \<and>
         isfile scenario_root ed_path) ts)"
proof -
  have v: "valid_layout scenario_root"
    by code_simp
  have c: "collect_image_triplets scenario_root = Inr [entry_of ''high'' ''a.png'']"
    by code_simp
  from collect_image_triplets_exact [OF v] v c show ?thesis
    by simp
qed

text \<open>
  The claim as stated, for every directory layout, fails where a category folder of the
  reference-image tree is missing: \<open>os.listdir\<close> raises, although \<open>a.png\<close> is a regular
  file under \<open>high\<close> in all three trees.
\<close>

theorem collect_image_triplets_missing_folder:
  "in_all_three no_low_root ''high'' ''a.png'' \<and>
   collect_image_triplets no_low_root = Inl FileNotFoundError"
  by code_simp

section \<open>Properties of one run of main\<close>

text \<open>The slot assignment is one of two, and both occur.\<close>

lemma assign_slots_cases:
  "assign_slots draws dp ed = (dp, ed, ''DepthPro'', ''EndoDac'') \<or>
   assign_slots draws dp ed = (ed, dp, ''EndoDac'', ''DepthPro'')"
  by (simp add: assign_slots_def Let_def)

lemma assign_slots_draw1: "assign_slots [1] dp ed = (dp, ed, ''DepthPro'', ''EndoDac'')"
  by (simp add: assign_slots_def shuffle_def)

lemma assign_slots_draw0: "assign_slots [0] dp ed = (ed, dp, ''EndoDac'', ''DepthPro'')"
  by (simp add: assign_slots_def shuffle_def)

lemma assign_slots_differ: "assign_slots [0] dp ed \<noteq> assign_slots [1] dp ed"
  unfolding assign_slots_draw0 assign_slots_draw1 by simp

lemma Image_open_path: "Image_open root p = Inr q \<Longrightarrow> q = p"
  by (auto simp: Image_open_def split: option.splits node.splits if_splits)

lemma radio_A: "(radio c = ''Option A'') = (c = SlotA)"
  by (cases c) (simp_all add: radio_options_def)

text \<open>What the trial page does to the session, and what it shows and stores.\<close>

lemma trial_page_unchanged:
  "trial_page inp s = (ss', out) \<Longrightarrow> recorded out = None \<Longrightarrow> ss' = Some s"
  by (auto simp: trial_page_def Let_def split: sum.splits prod.splits if_splits)

lemma trial_page_recorded:
  assumes "trial_page inp s = (ss', out)" and "recorded out = Some r"
  shows "ss' = Some (s\<lparr>responses := responses s @ [r], current_idx := current_idx s + 1\<rparr>)"
  using assms
  by (auto simp: trial_page_def Let_def split: sum.splits prod.splits if_splits)

lemma trial_page_Trial:
  assumes "trial_page inp s = (ss', Trial (img_path, dp_path, ed_path, cat, filename) shown (Some r))"
  shows "getitem (triplets_list s) (current_idx s) = Inr (img_path, dp_path, ed_path, cat, filename) \<and>
         next_clicked inp \<and>
         original shown = img_path \<and>
         ((optionA shown = dp_path \<and> optionB shown = ed_path \<and>
           r = [rater_name inp, filename, cat, if choice inp = SlotA then ''DepthPro'' else ''EndoDac'']) \<or>
          (optionA shown = ed_path \<and> optionB shown = dp_path \<and>
           r = [rater_name inp, filename, cat, if choice inp = SlotA then ''EndoDac'' else ''DepthPro'']))"
proof -
  from assms obtain mA mB lA lB where
    g: "getitem (triplets_list s) (current_idx s) = Inr (img_path, dp_path, ed_path, cat, filename)"
    and a: "assign_slots (pos_draws inp) dp_path ed_path = (mA, mB, lA, lB)"
    and n: "next_clicked inp"
    and sh: "shown = \<lparr>original = img_path, optionA = mA, optionB = mB\<rparr>"
    and r: "r = [rater_name inp, filename, cat, if radio (choice inp) = ''Option A'' then lA else lB]"
    by (auto simp: trial_page_def Let_def split: sum.splits prod.splits if_splits
             dest!: Image_open_path)
  from assign_slots_cases [of "pos_draws inp" dp_path ed_path] a
  have "(mA, mB, lA, lB) = (dp_path, ed_path, ''DepthPro'', ''EndoDac'') \<or>
        (mA, mB, lA, lB) = (ed_path, dp_path, ''EndoDac'', ''DepthPro'')"
    by simp
  with g n sh r show ?thesis
    by (auto simp: radio_A)
qed

text \<open>Which branch of \<open>main\<close> a run took, read off its outcome.\<close>

lemma main_Trial:
  assumes "main inp ss = (ss', Trial item shown r)"
  shows "\<exists>s. init_session inp ss = Inr s \<and> current_idx s < int (length (triplets_list s)) \<and>
             trial_page inp s = (ss', Trial item shown r)"
  using assms
  by (auto simp: main_def completion_page_def split: if_splits sum.splits)

lemma init_session_fresh:
  "init_session inp ss = Inr s \<Longrightarrow>
   cursor (Some s) = cursor ss \<and> judgment_log (Some s) = judgment_log ss \<and>
   (ss = None \<or> ss = Some s)"
  by (auto simp: init_session_def cursor_def judgment_log_def split: option.splits sum.splits)

lemma recorded_completion_page: "recorded (completion_page inp s) = None"
  by (simp add: completion_page_def split: sum.splits)

lemma main_Completed:
  assumes "main inp ss = (ss', Completed fin)"
  shows "\<exists>s. ss' = Some s \<and> init_session inp ss = Inr s \<and>
             int (length (triplets_list s)) \<le> current_idx s \<and>
             completion_page inp s = Completed fin"
proof -
  from assms have n: "rater_name inp \<noteq> []"
    by (auto simp: main_def)
  show ?thesis
  proof (cases "init_session inp ss")
    case (Inl e)
    with n assms show ?thesis by (simp add: main_def)
  next
    case (Inr s)
    show ?thesis
    proof (cases "int (length (triplets_list s)) \<le> current_idx s")
      case True
      with n Inr assms show ?thesis by (simp add: main_def)
    next
      case False
      with n Inr assms have t: "trial_page inp s = (ss', Completed fin)"
        by (simp add: main_def)
      have "recorded (Completed fin) = None" by simp
      then have "snd (trial_page inp s) \<noteq> Completed fin"
        by (auto simp: trial_page_def Let_def split: sum.splits prod.splits)
      with t show ?thesis by simp
    qed
  qed
qed

lemma completion_page_Finalized:
  assumes "completion_page inp s = Completed (Finalized sheet ok)"
  shows "finalize_clicked inp \<and> sheet = RESULT_COLUMNS # responses s \<and>
         excel_sink inp = None \<and> ok = all_steps_succeed (mail inp) RESULTS_FILENAME"
  using assms
  by (auto simp: completion_page_def DataFrame_def to_excel_def send_results_email_def
        send_body_def attempt_def all_steps_succeed_def
      split: if_splits sum.splits option.splits)

text \<open>The effect of a run on cursor, log and pool.\<close>

lemma main_unchanged:
  assumes "main inp ss = (ss', out)" and "recorded out = None"
  shows "judgment_log ss' = judgment_log ss \<and> cursor ss' = cursor ss"
proof (cases "rater_name inp = []")
  case True
  with assms show ?thesis by (simp add: main_def)
next
  case False
  show ?thesis
  proof (cases "init_session inp ss")
    case (Inl e)
    with False assms show ?thesis by (simp add: main_def)
  next
    case (Inr s)
    note fresh = init_session_fresh [OF Inr]
    show ?thesis
    proof (cases "int (length (triplets_list s)) \<le> current_idx s")
      case True
      with False Inr assms have "ss' = Some s" by (simp add: main_def)
      with fresh show ?thesis by simp
    next
      case notend: False
      with False Inr assms have "trial_page inp s = (ss', out)" by (simp add: main_def)
      from trial_page_unchanged [OF this assms(2)] fresh show ?thesis by simp
    qed
  qed
qed

lemma main_recorded:
  assumes "main inp ss = (ss', out)" and "recorded out = Some r"
  shows "judgment_log ss' = judgment_log ss @ [r] \<and> cursor ss' = cursor ss + 1 \<and>
         cursor ss < int (length (trial_pool ss')) \<and>
         (ss \<noteq> None \<longrightarrow> trial_pool ss' = trial_pool ss)"
proof -
  from assms(2) obtain item shown where out: "out = Trial item shown (Some r)"
    by (cases out) auto
  from assms(1) out have m: "main inp ss = (ss', Trial item shown (Some r))"
    by simp
  from main_Trial [OF m] obtain s where
    i: "init_session inp ss = Inr s" and lt: "current_idx s < int (length (triplets_list s))"
    and t: "trial_page inp s = (ss', Trial item shown (Some r))"
    by blast
  have "recorded (Trial item shown (Some r)) = Some r"
    by simp
  from trial_page_recorded [OF t this]
  have ss': "ss' = Some (s\<lparr>responses := responses s @ [r], current_idx := current_idx s + 1\<rparr>)" .
  have c: "cursor ss' = current_idx s + 1" and l: "judgment_log ss' = responses s @ [r]"
    and p: "trial_pool ss' = triplets_list s"
    unfolding ss' by (simp_all add: cursor_def judgment_log_def trial_pool_def)
  from init_session_fresh [OF i]
  have c0: "cursor ss = current_idx s" and l0: "judgment_log ss = responses s"
    and d: "ss = None \<or> ss = Some s"
    by (simp_all add: cursor_def judgment_log_def)
  from d have p0: "ss \<noteq> None \<longrightarrow> trial_pool ss = triplets_list s"
    by (auto simp: trial_pool_def)
  from c l p c0 l0 p0 lt show ?thesis
    by simp
qed

lemma main_pool:
  assumes "main inp ss = (ss', out)" and "ss \<noteq> None"
  shows "trial_pool ss' = trial_pool ss"
proof (cases "recorded out")
  case None
  from assms obtain s where s: "ss = Some s" by auto
  with assms(1) None have "ss' = Some s"
    by (auto simp: main_def init_session_def completion_page_def
             split: if_splits sum.splits dest: trial_page_unchanged)
  with s show ?thesis by simp
next
  case (Some r)
  from main_recorded [OF assms(1) Some] assms(2) show ?thesis by simp
qed

lemma main_response:
  assumes "main inp ss = (ss', out)" and "recorded out = Some r"
  shows "\<exists>filename cat model. r = [rater_name inp, filename, cat, model] \<and>
           (model = ''DepthPro'' \<or> model = ''EndoDac'')"
proof -
  from assms(2) obtain item shown where out: "out = Trial item shown (Some r)"
    by (cases out) auto
  obtain img_path dp_path ed_path cat filename
    where item: "item = (img_path, dp_path, ed_path, cat, filename)"
    by (cases item) auto
  from assms(1) out item
  have "main inp ss = (ss', Trial (img_path, dp_path, ed_path, cat, filename) shown (Some r))"
    by simp
  from main_Trial [OF this] obtain s where
    "trial_page inp s = (ss', Trial (img_path, dp_path, ed_path, cat, filename) shown (Some r))"
    by blast
  from trial_page_Trial [OF this] show ?thesis
    by auto
qed

section \<open>Properties of a session\<close>

lemma main_inv:
  assumes "session_inv ss" and "main inp ss = (ss', out)"
  shows "session_inv ss'"
proof (cases "recorded out")
  case None
  show ?thesis
  proof (cases ss)
    case n: None
    from main_unchanged [OF assms(2) None] n
    show ?thesis by (auto simp: session_inv_def cursor_def judgment_log_def)
  next
    case (Some s)
    then have "ss \<noteq> None" by simp
    from main_pool [OF assms(2) this] main_unchanged [OF assms(2) None] assms(1)
    show ?thesis by (simp add: session_inv_def)
  qed
next
  case (Some r)
  from main_recorded [OF assms(2) Some] assms(1)
  show ?thesis by (auto simp: session_inv_def)
qed

lemma session_inv_None: "session_inv None"
  by (simp add: session_inv_def cursor_def judgment_log_def trial_pool_def)

lemma run_all_inv: "session_inv ss \<Longrightarrow> session_inv (run_all inps ss)"
proof (induction inps arbitrary: ss)
  case Nil
  then show ?case by simp
next
  case (Cons inp inps)
  have "session_inv (fst (main inp ss))"
    using main_inv [OF Cons.prems, of inp] by (cases "main inp ss") auto
  from Cons.IH [OF this] show ?case by simp
qed

lemma run_all_snoc: "run_all (inps @ [inp]) ss = fst (main inp (run_all inps ss))"
  by (induction inps arbitrary: ss) simp_all

lemma main_log_step:
  assumes "list_all P (judgment_log ss)" and "main inp ss = (ss', out)"
    and "\<And>r. recorded out = Some r \<Longrightarrow> P r"
  shows "list_all P (judgment_log ss')"
proof (cases "recorded out")
  case None
  from main_unchanged [OF assms(2) None] assms(1) show ?thesis by simp
next
  case (Some r)
  from main_recorded [OF assms(2) Some] assms(1) assms(3) [OF Some] show ?thesis by simp
qed

lemma run_all_log:
  assumes "list_all P (judgment_log ss)"
    and "\<And>inp ss ss' out r. inp \<in> set inps \<Longrightarrow> main inp ss = (ss', out) \<Longrightarrow>
           recorded out = Some r \<Longrightarrow> P r"
  shows "list_all P (judgment_log (run_all inps ss))"
  using assms
proof (induction inps arbitrary: ss)
  case Nil
  then show ?case by simp
next
  case (Cons inp inps)
  obtain ss' out where m: "main inp ss = (ss', out)"
    by (cases "main inp ss") auto
  have "list_all P (judgment_log ss')"
  proof (rule main_log_step [OF Cons.prems(1) m])
    fix r assume "recorded out = Some r"
    with Cons.prems(2) [of inp ss ss' out r] m show "P r" by simp
  qed
  moreover have "\<And>i ss ss' out r. i \<in> set inps \<Longrightarrow> main i ss = (ss', out) \<Longrightarrow>
           recorded out = Some r \<Longrightarrow> P r"
    using Cons.prems(2) by (meson list.set_intros(2))
  ultimately have "list_all P (judgment_log (run_all inps ss'))"
    by (rule Cons.IH)
  with m show ?case
    by simp
qed

lemma log_None: "list_all P (judgment_log None)"
  by (simp add: judgment_log_def)

lemma run_all_shaped: "list_all shaped (judgment_log (run_all inps None))"
proof (rule run_all_log [OF log_None])
  fix inp ss ss' out r
  assume "main inp ss = (ss', out)" and "recorded out = Some r"
  from main_response [OF this] show "shaped r"
    by (auto simp: shaped_def)
qed

section \<open>When a run shows a trial, stores a response, writes the sheet\<close>



lemma trial_page_pool:
  "fst (trial_page inp s) \<noteq> None \<and> trial_pool (fst (trial_page inp s)) = triplets_list s"
  by (auto simp: trial_page_def Let_def trial_pool_def split: sum.splits prod.splits)

lemma written_trial_page: "written (snd (trial_page inp s)) = None"
  by (auto simp: trial_page_def Let_def split: sum.splits prod.splits)



lemma init_session_Some: "init_session inp (Some s) = Inr s"
  by (simp add: init_session_def)

lemma init_session_inv:
  assumes "session_inv ss" and "init_session inp ss = Inr s"
  shows "session_inv (Some s)"
proof -
  from init_session_fresh [OF assms(2)] have "ss = None \<or> ss = Some s"
    by simp
  then show ?thesis
  proof
    assume "ss = None"
    with assms(2) show ?thesis
      by (auto simp: init_session_def session_inv_def cursor_def judgment_log_def trial_pool_def
               split: sum.splits)
  next
    assume "ss = Some s"
    with assms(1) show ?thesis by simp
  qed
qed

text \<open>The four ways a run can go, with what each returns.\<close>

lemma main_branches:
  assumes "main inp ss = (ss', out)"
  shows "(rater_name inp = [] \<and> ss' = ss \<and> out = NameWarning) \<or>
         (rater_name inp \<noteq> [] \<and> ss = None \<and> ss' = None \<and> (\<exists>e. out = Raised e)) \<or>
         (\<exists>s. rater_name inp \<noteq> [] \<and> init_session inp ss = Inr s \<and>
              int (length (triplets_list s)) \<le> current_idx s \<and>
              ss' = Some s \<and> out = completion_page inp s) \<or>
         (\<exists>s. rater_name inp \<noteq> [] \<and> init_session inp ss = Inr s \<and>
              current_idx s < int (length (triplets_list s)) \<and>
              (ss', out) = trial_page inp s)"
proof (cases "rater_name inp = []")
  case True
  with assms show ?thesis by (simp add: main_def)
next
  case False
  show ?thesis
  proof (cases "init_session inp ss")
    case (Inl e)
    then have "ss = None"
      by (cases ss) (simp_all add: init_session_def)
    with False Inl assms show ?thesis by (auto simp: main_def)
  next
    case (Inr s)
    with False assms show ?thesis
      by (cases "int (length (triplets_list s)) \<le> current_idx s") (auto simp: main_def)
  qed
qed



lemma DataFrame_shaped:
  "list_all shaped data \<Longrightarrow>
   DataFrame data RESULT_COLUMNS = Inr \<lparr>tbl_columns = RESULT_COLUMNS, tbl_rows = data\<rparr>"
  by (auto simp: DataFrame_def RESULT_COLUMNS_def list_all_iff shaped_def)

lemma completion_page_written:
  assumes "list_all shaped (responses s)"
  shows "written (completion_page inp s) =
           (if finalize_clicked inp \<and> excel_sink inp = None
            then Some (RESULT_COLUMNS # responses s) else None)"
  by (simp add: completion_page_def DataFrame_shaped [OF assms] to_excel_def
        send_results_email_def split: option.splits sum.splits)

lemma main_written:
  assumes "session_inv ss" and "list_all shaped (judgment_log ss)" and "main inp ss = (ss', out)"
  shows "written out =
           (if rater_name inp \<noteq> [] \<and> finalize_clicked inp \<and> excel_sink inp = None \<and>
               ss' \<noteq> None \<and> cursor ss = int (length (trial_pool ss'))
            then Some (RESULT_COLUMNS # judgment_log ss') else None)"
proof -
  from main_branches [OF assms(3)] consider
      (name) "rater_name inp = []" "out = NameWarning"
    | (raised) e where "ss' = None" "out = Raised e"
    | (complete) s where "rater_name inp \<noteq> []" "init_session inp ss = Inr s"
        "int (length (triplets_list s)) \<le> current_idx s" "ss' = Some s"
        "out = completion_page inp s"
    | (trial) s where "rater_name inp \<noteq> []" "init_session inp ss = Inr s"
        "current_idx s < int (length (triplets_list s))" "(ss', out) = trial_page inp s"
    by blast
  then show ?thesis
  proof cases
    case name
    then show ?thesis by simp
  next
    case raised
    then show ?thesis by simp
  next
    case complete
    note fresh = init_session_fresh [OF complete(2)]
    from fresh have c: "cursor ss = current_idx s" and l: "judgment_log ss = responses s"
      by (simp_all add: cursor_def judgment_log_def)
    from init_session_inv [OF assms(1) complete(2)] complete(3)
    have "current_idx s = int (length (triplets_list s))"
      by (simp add: session_inv_def cursor_def trial_pool_def)
    with c complete(4) have full: "ss' \<noteq> None \<and> cursor ss = int (length (trial_pool ss'))"
      by (simp add: trial_pool_def)
    from assms(2) l have "list_all shaped (responses s)"
      by simp
    from completion_page_written [OF this, of inp] complete(1) complete(4) complete(5) full
    show ?thesis
      by (simp add: judgment_log_def)
  next
    case trial
    from init_session_fresh [OF trial(2)] have c: "cursor ss = current_idx s"
      by (simp add: cursor_def)
    from trial(4) have ss': "ss' = fst (trial_page inp s)"
      by (metis fst_conv)
    from trial(4) have out: "out = snd (trial_page inp s)"
      by (metis snd_conv)
    from trial_page_pool [of inp s] ss' have "trial_pool ss' = triplets_list s"
      by simp
    with c trial(3) have "cursor ss \<noteq> int (length (trial_pool ss'))"
      by simp
    with written_trial_page [of inp s] out show ?thesis
      by simp
  qed
qed

section \<open>The claims about the session\<close>

text \<open>
  Within one run the label follows the path: whenever a run stores a response, the
  \<open>chosen_model\<close> it stores is the identity of the image that this same run placed in
  the selected slot, for either outcome of its own slot shuffle.
\<close>

lemma label_matches_own_run_display:
  assumes "main inp ss = (ss', Trial (img_path, dp_path, ed_path, cat, filename) shown (Some r))"
  shows "getitem (trial_pool ss') (cursor ss' - 1) = Inr (img_path, dp_path, ed_path, cat, filename) \<and>
         last (judgment_log ss') = r \<and>
         r = [rater_name inp, filename, cat, r ! 3] \<and>
         ((optionA shown = dp_path \<and> optionB shown = ed_path) \<or>
          (optionA shown = ed_path \<and> optionB shown = dp_path)) \<and>
         ((shown_in shown (choice inp) = dp_path \<and> r ! 3 = ''DepthPro'') \<or>
          (shown_in shown (choice inp) = ed_path \<and> r ! 3 = ''EndoDac''))"
proof -
  from main_Trial [OF assms] obtain s where
    t: "trial_page inp s = (ss', Trial (img_path, dp_path, ed_path, cat, filename) shown (Some r))"
    by blast
  have "recorded (Trial (img_path, dp_path, ed_path, cat, filename) shown (Some r)) = Some r"
    by simp
  from trial_page_recorded [OF t this]
  have ss': "ss' = Some (s\<lparr>responses := responses s @ [r], current_idx := current_idx s + 1\<rparr>)" .
  have pool: "getitem (trial_pool ss') (cursor ss' - 1) = getitem (triplets_list s) (current_idx s)"
    and log: "last (judgment_log ss') = r"
    unfolding ss' by (simp_all add: trial_pool_def cursor_def judgment_log_def)
  note facts = trial_page_Trial [OF t]
  from facts have g: "getitem (triplets_list s) (current_idx s) = Inr (img_path, dp_path, ed_path, cat, filename)"
    by simp
  from facts have slots: "(optionA shown = dp_path \<and> optionB shown = ed_path \<and>
           r = [rater_name inp, filename, cat, if choice inp = SlotA then ''DepthPro'' else ''EndoDac'']) \<or>
          (optionA shown = ed_path \<and> optionB shown = dp_path \<and>
           r = [rater_name inp, filename, cat, if choice inp = SlotA then ''EndoDac'' else ''DepthPro''])"
    by simp
  from slots have shape: "r = [rater_name inp, filename, cat, r ! 3]"
    by auto
  from slots have assignment: "(optionA shown = dp_path \<and> optionB shown = ed_path) \<or>
          (optionA shown = ed_path \<and> optionB shown = dp_path)"
    by auto
  from slots have resolved: "(shown_in shown (choice inp) = dp_path \<and> r ! 3 = ''DepthPro'') \<or>
          (shown_in shown (choice inp) = ed_path \<and> r ! 3 = ''EndoDac'')"
    by (cases "choice inp") auto
  from pool g log shape assignment resolved show ?thesis
    by simp
qed

text \<open>
  Claim C1 says that the stored \<open>chosen_model\<close> is the identity of the image displayed in
  the slot the rater chose. The source draws the slot assignment anew in every run, also
  in the run that the click on "Next Image" starts, and does not keep it in the session
  state. On the one-item layout the page \<open>alice\<close> looks at shows the DepthPro image as
  option A; she keeps option A and clicks; the run of the click draws the other
  assignment and stores \<open>EndoDac\<close>.
\<close>

theorem seen_slot_differs_from_recorded:
  "main alice_looks None = (Some alice_start, Trial alice_item alice_shown None) \<and>
   shown_in alice_shown SlotA = path_join (path_join DEPTHPRO_DIR ''high'') ''a.png'' \<and>
   choice alice_click_swapped = SlotA \<and>
   next_clicked alice_click_swapped \<and>
   main alice_click_swapped (Some alice_start) =
     (Some alice_done_swapped,
      Trial alice_item alice_swapped (Some [''alice'', ''a.png'', ''high'', ''EndoDac'']))"
  by code_simp



text \<open>
  Claim C4, as amended. On a complete session (cursor equal to the length of the pool) a
  run in which "Next Image" counts as clicked stores nothing: the session state is
  returned as it was, no response is appended, and no error is signalled; unless the
  finalize button is clicked the run ends at the name prompt or at the completion page.
\<close>

theorem record_on_complete_session:
  assumes "current_idx s = int (length (triplets_list s))"
  shows "fst (main inp (Some s)) = Some s \<and>
         recorded (snd (main inp (Some s))) = None \<and>
         snd (main (inp\<lparr>finalize_clicked := False\<rparr>) (Some s)) =
           (if rater_name inp = [] then NameWarning else Completed NotFinalized)"
  using assms
  by (simp add: main_def init_session_def completion_page_def
        recorded_completion_page [unfolded completion_page_def] split: sum.splits)

theorem record_on_complete_session_witness:
  "current_idx alice_done = int (length (triplets_list alice_done)) \<and>
   next_clicked alice_input \<and>
   fst (main alice_input (Some alice_done)) = Some alice_done \<and>
   recorded (snd (main alice_input (Some alice_done))) = None"
proof -
  have c: "current_idx alice_done = int (length (triplets_list alice_done))"
    by (simp add: alice_done_def)
  from record_on_complete_session [OF c, of alice_input] c show ?thesis
    by (simp add: alice_input_def)
qed

text \<open>
  The claim as stated says the call fails with an error. On the complete session of
  \<open>alice\<close>, with "Next Image" clicked, the run ends at the completion page like any other
  run of a complete session; nothing is raised.
\<close>

theorem record_on_complete_session_no_error:
  "next_clicked alice_input \<and>
   current_idx alice_done = int (length (triplets_list alice_done)) \<and>
   main alice_input (Some alice_done) = (Some alice_done, Completed NotFinalized)"
  by code_simp

text \<open>
  Claim C5, as amended. A run with an empty rater name ends at the name prompt and
  returns the session state it was given; on a fresh session no pool, cursor or log is
  created.
\<close>

theorem empty_rater_name_rejected:
  assumes "rater_name inp = []"
  shows "main inp ss = (ss, NameWarning)"
  using assms by (simp add: main_def)

theorem empty_rater_name_rejected_witness:
  "rater_name (alice_input\<lparr>rater_name := []\<rparr>) = [] \<and>
   main (alice_input\<lparr>rater_name := []\<rparr>) None = (None, NameWarning)"
proof -
  have e: "rater_name (alice_input\<lparr>rater_name := []\<rparr>) = []"
    by simp
  from empty_rater_name_rejected [OF e] e show ?thesis
    by simp
qed

text \<open>
  The claim as stated also rejects a name of white space only. The source tests
  \<open>not rater_name\<close>, which is false for a single blank: the session is created and a
  response with that name is stored.
\<close>

theorem whitespace_rater_name_accepted:
  "main (alice_input\<lparr>rater_name := '' ''\<rparr>) None =
     (Some (alice_done\<lparr>responses := [['' '', ''a.png'', ''high'', ''DepthPro'']]\<rparr>),
      Trial alice_item alice_shown (Some ['' '', ''a.png'', ''high'', ''DepthPro'']))"
  by code_simp

text \<open>
  Claim C6, as amended. The rater name is read from the text field in every run and is
  not kept in the session state; each response carries the name of the run that stored
  it. If every run of a session has the same name in the field, all responses of the log
  carry that name.
\<close>

theorem rater_constant_when_name_unchanged:
  assumes "list_all (\<lambda>inp. rater_name inp = name) inps"
  shows "list_all (\<lambda>r. r ! 0 = name) (judgment_log (run_all inps None))"
proof (rule run_all_log [OF log_None])
  fix inp ss ss' out r
  assume "inp \<in> set inps" and m: "main inp ss = (ss', out)" and r: "recorded out = Some r"
  with assms have "rater_name inp = name"
    by (simp add: list_all_iff)
  with main_response [OF m r] show "r ! 0 = name"
    by auto
qed

theorem rater_constant_when_name_unchanged_witness:
  "list_all (\<lambda>inp. rater_name inp = ''alice'') [alice_input] \<and>
   list_all (\<lambda>r. r ! 0 = ''alice'') (judgment_log (run_all [alice_input] None)) \<and>
   judgment_log (run_all [alice_input] None) = [alice_response]"
proof -
  have a: "list_all (\<lambda>inp. rater_name inp = ''alice'') [alice_input]"
    by (simp add: alice_input_def)
  have l: "judgment_log (run_all [alice_input] None) = [alice_response]"
    by code_simp
  from rater_constant_when_name_unchanged [OF a] a l show ?thesis
    by simp
qed

text \<open>
  The claim as stated makes the name immutable after the start. In a session over two
  items whose text field reads \<open>alice\<close> in the first run and \<open>bob\<close> in the second, the
  log holds one response of each name.
\<close>

theorem rater_changes_within_session:
  "judgment_log (run_all [alice_input\<lparr>disk := two_item_root\<rparr>,
                          alice_input\<lparr>rater_name := ''bob''\<rparr>] None) =
     [[''alice'', ''b.png'', ''high'', ''DepthPro''], [''bob'', ''a.png'', ''high'', ''DepthPro'']]"
  by code_simp

text \<open>
  Claim C7. In a session reached by any sequence of runs, a run writes the sheet exactly
  when the name is not empty, the finalize button is clicked, the file can be written,
  and the session is initialized with the cursor at the length of the pool. The sheet is
  then the header row \<open>rater_name\<close>, \<open>filename\<close>, \<open>category\<close>, \<open>chosen_model\<close> followed by
  all responses of the log in their order; the log has one response of four cells per
  item of the pool. No shorter log is ever written.
\<close>

theorem export_only_when_complete:
  assumes "ss = run_all inps None" and "main inp ss = (ss', out)"
  shows "written out =
           (if rater_name inp \<noteq> [] \<and> finalize_clicked inp \<and> excel_sink inp = None \<and>
               ss' \<noteq> None \<and> cursor ss = int (length (trial_pool ss'))
            then Some ([''rater_name'', ''filename'', ''category'', ''chosen_model'']
                         # judgment_log ss')
            else None) \<and>
         (written out \<noteq> None \<longrightarrow>
            cursor ss' = int (length (trial_pool ss')) \<and>
            length (judgment_log ss') = length (trial_pool ss') \<and>
            list_all (\<lambda>row. length row = 4) (judgment_log ss'))"
proof -
  have i: "session_inv ss"
    unfolding assms(1) by (rule run_all_inv [OF session_inv_None])
  have sh: "list_all shaped (judgment_log ss)"
    unfolding assms(1) by (rule run_all_shaped)
  from main_written [OF i sh assms(2)]
  have w: "written out =
           (if rater_name inp \<noteq> [] \<and> finalize_clicked inp \<and> excel_sink inp = None \<and>
               ss' \<noteq> None \<and> cursor ss = int (length (trial_pool ss'))
            then Some ([''rater_name'', ''filename'', ''category'', ''chosen_model'']
                         # judgment_log ss')
            else None)"
    by (simp add: RESULT_COLUMNS_def)
  have rest: "cursor ss' = int (length (trial_pool ss')) \<and>
            length (judgment_log ss') = length (trial_pool ss') \<and>
            list_all (\<lambda>row. length row = 4) (judgment_log ss')"
    if "written out \<noteq> None"
  proof -
    from that w have c: "cursor ss = int (length (trial_pool ss'))"
      by (simp split: if_splits)
    from that have "recorded out = None"
      by (cases out) auto
    from main_unchanged [OF assms(2) this]
    have same: "judgment_log ss' = judgment_log ss" "cursor ss' = cursor ss"
      by simp_all
    from main_inv [OF i assms(2)] have "session_inv ss'" .
    with c same have "cursor ss' = int (length (trial_pool ss'))"
      and "length (judgment_log ss') = length (trial_pool ss')"
      by (simp_all add: session_inv_def)
    moreover from sh same have "list_all (\<lambda>row. length row = 4) (judgment_log ss')"
      by (simp add: list_all_iff shaped_def)
    ultimately show ?thesis by simp
  qed
  from w rest show ?thesis
    by blast
qed

theorem export_only_when_complete_witness:
  "main alice_two_finalize (run_all [alice_two, alice_two_B] None) =
     (Some two_item_done,
      Completed (Finalized
        [[''rater_name'', ''filename'', ''category'', ''chosen_model''],
         [''alice'', ''b.png'', ''high'', ''DepthPro''],
         [''alice'', ''a.png'', ''high'', ''EndoDac'']] True)) \<and>
   finalize_clicked alice_two_finalize \<and>
   cursor (Some two_item_done) = int (length (trial_pool (Some two_item_done))) \<and>
   judgment_log (Some two_item_done) =
     [[''alice'', ''b.png'', ''high'', ''DepthPro''], [''alice'', ''a.png'', ''high'', ''EndoDac'']] \<and>
   written (Completed (Finalized
        [[''rater_name'', ''filename'', ''category'', ''chosen_model''],
         [''alice'', ''b.png'', ''high'', ''DepthPro''],
         [''alice'', ''a.png'', ''high'', ''EndoDac'']] True)) =
     Some ([''rater_name'', ''filename'', ''category'', ''chosen_model'']
             # judgment_log (Some two_item_done))"
proof -
  have m: "main alice_two_finalize (run_all [alice_two, alice_two_B] None) =
     (Some two_item_done,
      Completed (Finalized
        [[''rater_name'', ''filename'', ''category'', ''chosen_model''],
         [''alice'', ''b.png'', ''high'', ''DepthPro''],
         [''alice'', ''a.png'', ''high'', ''EndoDac'']] True))"
    by code_simp
  have f: "finalize_clicked alice_two_finalize"
    by (simp add: alice_two_finalize_def)
  have l: "judgment_log (Some two_item_done) =
     [[''alice'', ''b.png'', ''high'', ''DepthPro''], [''alice'', ''a.png'', ''high'', ''EndoDac'']]"
    by (simp add: judgment_log_def two_item_done_def)
  from export_only_when_complete [OF refl m] m f l show ?thesis
    by (simp split: if_splits)
qed

text \<open>
  Claim C8. Whatever the file name and whatever each step of the mail attempt does,
  succeed or raise, \<open>send_results_email\<close> returns a boolean and raises nothing: \<open>True\<close>
  when every step succeeds, \<open>False\<close> as soon as one of them raises.
\<close>

theorem send_results_email_never_raises:
  "send_results_email t excel_filename = Inr (all_steps_succeed t excel_filename)"
  by (simp add: send_results_email_def send_body_def attempt_def all_steps_succeed_def
        split: option.splits sum.splits)

theorem send_results_email_never_raises_witness:
  "send_results_email mail_refused RESULTS_FILENAME = Inr False \<and>
   send_results_email mail_ok RESULTS_FILENAME = Inr True"
  using send_results_email_never_raises [of mail_refused RESULTS_FILENAME]
    send_results_email_never_raises [of mail_ok RESULTS_FILENAME]
  by (simp add: all_steps_succeed_def mail_refused_def mail_ok_def)

text \<open>
  Claim C9. A run in which "Next Image" is not clicked returns an initialized session
  state exactly as it was given, pool, cursor and log, and leaves cursor and log as they
  were on any state; yet the slot assignment it shows depends on the draw, the draws 0
  and 1 giving different assignments for every item.
\<close>

theorem presenting_leaves_session_unchanged:
  assumes "\<not> next_clicked inp"
  shows "fst (main inp (Some s)) = Some s \<and>
         cursor (fst (main inp ss)) = cursor ss \<and>
         judgment_log (fst (main inp ss)) = judgment_log ss \<and>
         assign_slots [0] dp_path ed_path \<noteq> assign_slots [1] dp_path ed_path"
proof -
  have none: "recorded out = None" if m: "main inp st = (st', out)" for st st' out
  proof (cases "recorded out")
    case None
    then show ?thesis .
  next
    case (Some r)
    then obtain item shown where out: "out = Trial item shown (Some r)"
      by (cases out) auto
    obtain img_path dp ed cat filename where "item = (img_path, dp, ed, cat, filename)"
      by (cases item) auto
    with m out have "main inp st = (st', Trial (img_path, dp, ed, cat, filename) shown (Some r))"
      by simp
    from main_Trial [OF this] obtain s' where
      "trial_page inp s' = (st', Trial (img_path, dp, ed, cat, filename) shown (Some r))"
      by blast
    from trial_page_Trial [OF this] assms show ?thesis
      by simp
  qed
  obtain ss1 out1 where m1: "main inp (Some s) = (ss1, out1)"
    by (cases "main inp (Some s)") auto
  from m1 none [OF m1] have "ss1 = Some s"
    by (auto simp: main_def init_session_def split: if_splits dest: trial_page_unchanged)
  with m1 have same: "fst (main inp (Some s)) = Some s"
    by simp
  obtain ss2 out2 where m2: "main inp ss = (ss2, out2)"
    by (cases "main inp ss") auto
  from main_unchanged [OF m2 none [OF m2]] m2
  have "cursor (fst (main inp ss)) = cursor ss" and "judgment_log (fst (main inp ss)) = judgment_log ss"
    by simp_all
  with same assign_slots_differ [of dp_path ed_path] show ?thesis
    by simp
qed

theorem presenting_leaves_session_unchanged_witness:
  "\<not> next_clicked alice_looks \<and>
   main alice_looks (Some alice_start) = (Some alice_start, Trial alice_item alice_shown None) \<and>
   main (alice_looks\<lparr>pos_draws := [0]\<rparr>) (Some alice_start) =
     (Some alice_start, Trial alice_item alice_swapped None) \<and>
   fst (main alice_looks (Some alice_start)) = Some alice_start"
proof -
  have n: "\<not> next_clicked alice_looks"
    by (simp add: alice_looks_def alice_input_def)
  have m1: "main alice_looks (Some alice_start) =
      (Some alice_start, Trial alice_item alice_shown None)"
    by code_simp
  have m0: "main (alice_looks\<lparr>pos_draws := [0]\<rparr>) (Some alice_start) =
      (Some alice_start, Trial alice_item alice_swapped None)"
    by code_simp
  from presenting_leaves_session_unchanged [OF n, of alice_start] n m1 m0 show ?thesis
    by simp
qed

text \<open>
  Claim C10. In a session reached by any sequence of runs and after one more run, the
  fourth cell of every response in the log is \<open>DepthPro\<close> or \<open>EndoDac\<close>, and so is the
  fourth cell of every data row of a sheet that run wrote.
\<close>

theorem chosen_model_values:
  assumes "ss = run_all inps None" and "main inp ss = (ss', out)"
  shows "list_all (\<lambda>r. r ! 3 = ''DepthPro'' \<or> r ! 3 = ''EndoDac'') (judgment_log ss') \<and>
         list_all (\<lambda>row. row ! 3 = ''DepthPro'' \<or> row ! 3 = ''EndoDac'') (exported_rows out)"
proof -
  have "list_all shaped (judgment_log (run_all (inps @ [inp]) None))"
    by (rule run_all_shaped)
  moreover have "run_all (inps @ [inp]) None = ss'"
    using assms by (simp add: run_all_snoc)
  ultimately have log: "list_all (\<lambda>r. r ! 3 = ''DepthPro'' \<or> r ! 3 = ''EndoDac'') (judgment_log ss')"
    by (simp add: list_all_iff shaped_def)
  show ?thesis
  proof (cases "exported_rows out = []")
    case True
    with log show ?thesis by simp
  next
    case False
    then obtain sheet ok where out: "out = Completed (Finalized sheet ok)"
      by (cases out rule: exported_rows.cases) auto
    from main_Completed [OF assms(2) [unfolded out]] obtain s where
      ss': "ss' = Some s" and c: "completion_page inp s = Completed (Finalized sheet ok)"
      by blast
    from completion_page_Finalized [OF c] ss' have "exported_rows out = judgment_log ss'"
      by (simp add: out judgment_log_def)
    with log show ?thesis by simp
  qed
qed

theorem chosen_model_values_witness:
  "main (alice_input\<lparr>finalize_clicked := True, mail := mail_refused\<rparr>) (run_all [alice_input] None) =
     (Some alice_done, Completed (Finalized [RESULT_COLUMNS, alice_response] False)) \<and>
   list_all (\<lambda>r. r ! 3 = ''DepthPro'' \<or> r ! 3 = ''EndoDac'') (judgment_log (Some alice_done)) \<and>
   list_all (\<lambda>row. row ! 3 = ''DepthPro'' \<or> row ! 3 = ''EndoDac'')
     (exported_rows (Completed (Finalized [RESULT_COLUMNS, alice_response] False)))"
proof -
  have m: "main (alice_input\<lparr>finalize_clicked := True, mail := mail_refused\<rparr>)
             (run_all [alice_input] None) =
     (Some alice_done, Completed (Finalized [RESULT_COLUMNS, alice_response] False))"
    by code_simp
  from chosen_model_values [OF refl m] m show ?thesis
    by simp
qed

end
